theory Spec2Isabelle
  imports Main "HOL-Library.Sublist"
begin

section \<open>JavaScript values\<close>

text \<open>
  The watch client of \<^verbatim>\<open>src/renderer/api/kube-watch-api.ts\<close> receives newline-delimited
  JSON. A decoded event is an untyped JavaScript value: the annotation
  \<^verbatim>\<open>IKubeWatchEvent\<close> on the result of \<^verbatim>\<open>JSON.parse\<close> checks nothing at run time.
  \<open>JUndefined\<close> is the value of a missing property; a parser never returns it.
\<close>

datatype json =
    JUndefined
  | JNull
  | JBool bool
  | JNum int
  | JStr string
  | JArr "json list"
  | JObj "(string \<times> json) list"

text \<open>What a \<^verbatim>\<open>catch\<close> clause can receive.\<close>

datatype js_error = SyntaxError | TypeError | Failure string

text \<open>
  Reading a property. On an object the last binding of the key counts (as
  \<^verbatim>\<open>JSON.parse\<close> keeps the last duplicate); on \<^verbatim>\<open>null\<close> and \<^verbatim>\<open>undefined\<close> the read
  throws a TypeError; on every other value the properties read by this program
  (\<^verbatim>\<open>type, object, kind, apiVersion, metadata, namespace, resourceVersion\<close>) are
  undefined.
\<close>

fun field :: "string \<Rightarrow> json \<Rightarrow> json" where
  "field k (JObj kvs) = (case map_of (rev kvs) k of None \<Rightarrow> JUndefined | Some v \<Rightarrow> v)"
| "field k _ = JUndefined"

definition get_prop :: "json \<Rightarrow> string \<Rightarrow> js_error + json" where
  "get_prop v k = (if v = JUndefined \<or> v = JNull then Inl TypeError else Inr (field k v))"

fun set_field :: "string \<Rightarrow> json \<Rightarrow> json \<Rightarrow> json" where
  "set_field k v (JObj kvs) = JObj (filter (\<lambda>kv. fst kv \<noteq> k) kvs @ [(k, v)])"
| "set_field k v j = j"

definition and_then :: "'e + 'a \<Rightarrow> ('a \<Rightarrow> 'e + 'b) \<Rightarrow> 'e + 'b" where
  "and_then r f = (case r of Inl e \<Rightarrow> Inl e | Inr x \<Rightarrow> f x)"

subsection \<open>A reference parser for JSON texts\<close>

text \<open>
  \<^verbatim>\<open>JSON.parse\<close> belongs to the platform, not to the repository, so the functions of
  the client take the parser as a parameter and the general theorems hold for every
  parser. \<open>JSON_parse\<close> below is used to run the client on concrete texts. It reads
  the JSON grammar restricted to integer numbers and to strings without escape
  sequences: a token list is produced first, then a stack machine builds the value.
  A text outside the grammar is rejected, as \<^verbatim>\<open>JSON.parse\<close> throws a SyntaxError.
\<close>

datatype token =
    LBrace | RBrace | LBrack | RBrack | Colon | Comma
  | TStr string | TNum int | TTrue | TFalse | TNull

definition quote :: char where
  "quote = CHR 0x22"

definition NL :: char where
  "NL = CHR 0x0A"

definition is_ws :: "char \<Rightarrow> bool" where
  "is_ws c = (c = CHR '' '' \<or> c = CHR 0x09 \<or> c = CHR 0x0A \<or> c = CHR 0x0D)"

definition is_digit :: "char \<Rightarrow> bool" where
  "is_digit c = (c \<in> set ''0123456789'')"

definition digits_val :: "string \<Rightarrow> int" where
  "digits_val ds = foldl (\<lambda>n c. 10 * n + (int (of_char c) - 48)) 0 ds"

definition str_char :: "char \<Rightarrow> bool" where
  "str_char c = (c \<noteq> quote \<and> c \<noteq> CHR 0x5C \<and> 32 \<le> (of_char c :: nat))"

definition num_end :: "string \<Rightarrow> bool" where
  "num_end r = (case r of [] \<Rightarrow> True | c # _ \<Rightarrow> c \<notin> set ''.eE'')"

definition lex_number :: "bool \<Rightarrow> string \<Rightarrow> (token \<times> string) option" where
  "lex_number neg s =
     (let ds = takeWhile is_digit s; r = dropWhile is_digit s
      in if ds = [] \<or> (hd ds = CHR ''0'' \<and> 1 < length ds) \<or> \<not> num_end r then None
         else Some (TNum (if neg then - digits_val ds else digits_val ds), r))"

function lex :: "string \<Rightarrow> token list option" where
  "lex [] = Some []"
| "lex (c # cs) =
     (if is_ws c then lex cs
      else if c = CHR ''{'' then map_option ((#) LBrace) (lex cs)
      else if c = CHR ''}'' then map_option ((#) RBrace) (lex cs)
      else if c = CHR ''['' then map_option ((#) LBrack) (lex cs)
      else if c = CHR '']'' then map_option ((#) RBrack) (lex cs)
      else if c = CHR '':'' then map_option ((#) Colon) (lex cs)
      else if c = CHR '','' then map_option ((#) Comma) (lex cs)
      else if c = quote then
        (case dropWhile str_char cs of
           [] \<Rightarrow> None
         | d # r \<Rightarrow> if d = quote then map_option ((#) (TStr (takeWhile str_char cs))) (lex r)
                    else None)
      else if c = CHR ''t'' then
        (if take 3 cs = ''rue'' then map_option ((#) TTrue) (lex (drop 3 cs)) else None)
      else if c = CHR ''f'' then
        (if take 4 cs = ''alse'' then map_option ((#) TFalse) (lex (drop 4 cs)) else None)
      else if c = CHR ''n'' then
        (if take 3 cs = ''ull'' then map_option ((#) TNull) (lex (drop 3 cs)) else None)
      else if c = CHR ''-'' then
        (case lex_number True cs of
           None \<Rightarrow> None
         | Some (t, r) \<Rightarrow> map_option ((#) t) (lex (dropWhile is_digit cs)))
      else
        (case lex_number False (c # cs) of
           None \<Rightarrow> None
         | Some (t, r) \<Rightarrow> map_option ((#) t) (lex (dropWhile is_digit cs))))"
  by pat_completeness auto
termination
proof (relation "measure length")
  fix c :: char and cs d r
  assume "dropWhile str_char cs = d # r"
  then have "length (d # r) \<le> length cs"
    by (metis length_dropWhile_le)
  then show "(r, c # cs) \<in> measure length" by simp
qed (auto intro: le_imp_less_Suc length_dropWhile_le)

datatype frame =
    InArr "json list"
  | InObj "(string \<times> json) list"
  | InKey "(string \<times> json) list" string

datatype pstate =
    WantValue | WantValueOrClose | WantKeyOrClose | WantKey | WantColon
  | AfterValue | Finished json | Bad

fun push_value :: "json \<Rightarrow> frame list \<Rightarrow> pstate \<times> frame list" where
  "push_value v [] = (Finished v, [])"
| "push_value v (InArr acc # st) = (AfterValue, InArr (acc @ [v]) # st)"
| "push_value v (InKey acc k # st) = (AfterValue, InObj (acc @ [(k, v)]) # st)"
| "push_value v (InObj acc # st) = (Bad, [])"

fun close_array :: "frame list \<Rightarrow> pstate \<times> frame list" where
  "close_array (InArr acc # st) = push_value (JArr acc) st"
| "close_array _ = (Bad, [])"

fun close_object :: "frame list \<Rightarrow> pstate \<times> frame list" where
  "close_object (InObj acc # st) = push_value (JObj acc) st"
| "close_object _ = (Bad, [])"

fun open_key :: "string \<Rightarrow> frame list \<Rightarrow> pstate \<times> frame list" where
  "open_key k (InObj acc # st) = (WantColon, InKey acc k # st)"
| "open_key k _ = (Bad, [])"

fun start_value :: "token \<Rightarrow> frame list \<Rightarrow> pstate \<times> frame list" where
  "start_value LBrace st = (WantKeyOrClose, InObj [] # st)"
| "start_value LBrack st = (WantValueOrClose, InArr [] # st)"
| "start_value (TStr s) st = push_value (JStr s) st"
| "start_value (TNum n) st = push_value (JNum n) st"
| "start_value TTrue st = push_value (JBool True) st"
| "start_value TFalse st = push_value (JBool False) st"
| "start_value TNull st = push_value JNull st"
| "start_value _ st = (Bad, [])"

fun parse_step :: "pstate \<times> frame list \<Rightarrow> token \<Rightarrow> pstate \<times> frame list" where
  "parse_step (WantValue, st) t = start_value t st"
| "parse_step (WantValueOrClose, st) t = (if t = RBrack then close_array st else start_value t st)"
| "parse_step (WantKeyOrClose, st) t =
     (case t of TStr k \<Rightarrow> open_key k st | RBrace \<Rightarrow> close_object st | _ \<Rightarrow> (Bad, []))"
| "parse_step (WantKey, st) t = (case t of TStr k \<Rightarrow> open_key k st | _ \<Rightarrow> (Bad, []))"
| "parse_step (WantColon, st) t = (if t = Colon then (WantValue, st) else (Bad, []))"
| "parse_step (AfterValue, st) t =
     (case t of
        Comma \<Rightarrow> (case st of InArr acc # _ \<Rightarrow> (WantValue, st)
                            | InObj acc # _ \<Rightarrow> (WantKey, st)
                            | _ \<Rightarrow> (Bad, []))
      | RBrack \<Rightarrow> close_array st
      | RBrace \<Rightarrow> close_object st
      | _ \<Rightarrow> (Bad, []))"
| "parse_step (Finished v, st) t = (Bad, [])"
| "parse_step (Bad, st) t = (Bad, [])"

definition JSON_parse :: "string \<Rightarrow> json option" where
  "JSON_parse s =
     (case lex s of
        None \<Rightarrow> None
      | Some ts \<Rightarrow> (case foldl parse_step (WantValue, []) ts of
                     (Finished v, _) \<Rightarrow> Some v
                   | _ \<Rightarrow> None))"

text \<open>\<^verbatim>\<open>String.prototype.split("\n")\<close>: the pieces between the separators; never empty.\<close>

fun split_nl :: "string \<Rightarrow> string list" where
  "split_nl [] = [[]]"
| "split_nl (c # cs) =
     (if c = NL then [] # split_nl cs
      else (case split_nl cs of l # ls \<Rightarrow> (c # l) # ls | [] \<Rightarrow> [[c]]))"

section \<open>The watch client\<close>

text \<open>
  \<^verbatim>\<open>IKubeWatchMessage\<close>: every field is optional; \<open>None\<close> is an absent field.
\<close>

record ('api, 'store) message =
  data :: "json option"
  error :: "json option"
  api :: "'api option"
  store :: "'store option"

definition empty_message :: "('api, 'store) message" where
  "empty_message = \<lparr>data = None, error = None, api = None, store = None\<rparr>"

datatype log_entry = LogInfo string | LogCaught js_error | LogError string js_error

text \<open>
  The fields of \<^verbatim>\<open>class KubeWatchApi\<close>, followed by the effects of its methods on the
  outside: the resource versions kept by the api objects, the messages handed to the
  \<^verbatim>\<open>onMessage\<close> listeners, the \<^verbatim>\<open>onServerStreamEnd\<close> tasks started, the console, the
  readers cancelled and the requests aborted. A stream reader is named by the request
  id of the \<^verbatim>\<open>connect\<close> call that created it. The request id is a natural number: the
  counter of the source is a double, exact up to \<open>2 ^ 53\<close> increments.
\<close>

record ('api, 'store) kube_watch_api =
  requestId :: nat
  reader :: "nat option"
  isConnected :: bool
  subscribers :: "'api \<rightharpoonup> int"
  resourceVersions :: "'api \<times> json \<rightharpoonup> json"
  emitted :: "('api, 'store) message list"
  streamEnds :: "json list"
  console :: "log_entry list"
  cancelled :: "nat list"
  aborted :: "nat list"

text \<open>
  The collaborators the client calls and the constants it imports; none of them is
  defined in the file of the client.
\<close>

record ('api, 'store) collaborators =
  parse :: "string \<Rightarrow> json option"
  getApiByKind :: "json \<Rightarrow> json \<Rightarrow> 'api option"
  getStore :: "'api \<Rightarrow> 'store option"
  ensureObjectSelfLink :: "'api \<Rightarrow> json \<Rightarrow> js_error + json"
  isProduction :: bool
  isDebugging :: bool

definition log ::
  "('api, 'store) collaborators \<Rightarrow> log_entry \<Rightarrow> ('api, 'store) kube_watch_api
   \<Rightarrow> ('api, 'store) kube_watch_api" where
  "log env entry st =
     (if isProduction env \<and> \<not> isDebugging env then st
      else st\<lparr>console := console st @ [entry]\<rparr>)"

definition emit ::
  "('api, 'store) message \<Rightarrow> ('api, 'store) kube_watch_api \<Rightarrow> ('api, 'store) kube_watch_api" where
  "emit m st = st\<lparr>emitted := emitted st @ [m]\<rparr>"

text \<open>
  Modelled from the spec: \<^verbatim>\<open>api.setResourceVersion\<close> is a method of the api objects
  (\<^verbatim>\<open>kube-api.ts\<close>, not part of the client). The spec has it record the version in the
  resumption table under the given namespace key.
\<close>

definition setResourceVersion ::
  "'api \<Rightarrow> json \<Rightarrow> json \<Rightarrow> ('api, 'store) kube_watch_api \<Rightarrow> ('api, 'store) kube_watch_api" where
  "setResourceVersion a ns v st = st\<lparr>resourceVersions := (resourceVersions st)((a, ns) \<mapsto> v)\<rparr>"

subsection \<open>Event dispatcher\<close>

definition is_data_type :: "json \<Rightarrow> bool" where
  "is_data_type ty = (ty = JStr ''ADDED'' \<or> ty = JStr ''DELETED'' \<or> ty = JStr ''MODIFIED'')"

text \<open>
  \<^verbatim>\<open>getMessage\<close>. The result is \<open>Inl\<close> where the source throws: reading \<^verbatim>\<open>event.type\<close>
  of \<^verbatim>\<open>null\<close>, \<^verbatim>\<open>data.object.kind\<close> without an object, the destructuring of a missing
  \<^verbatim>\<open>metadata\<close>, or inside \<^verbatim>\<open>ensureObjectSelfLink\<close>. Every throw comes before the first
  write to the resumption table, so a throw leaves the state as it was.
  \<^verbatim>\<open>onServerStreamEnd\<close> is an async function called without \<^verbatim>\<open>await\<close>: it starts a task
  and never throws into \<^verbatim>\<open>getMessage\<close>.
\<close>

definition getMessage ::
  "('api, 'store) collaborators \<Rightarrow> ('api, 'store) kube_watch_api \<Rightarrow> json
   \<Rightarrow> js_error + (('api, 'store) message \<times> ('api, 'store) kube_watch_api)" where
  "getMessage env st event =
     and_then (get_prop event ''type'') (\<lambda>ty.
       if is_data_type ty then
         and_then (get_prop event ''object'') (\<lambda>obj.
         and_then (get_prop obj ''kind'') (\<lambda>kind.
         and_then (get_prop obj ''apiVersion'') (\<lambda>apiVersion.
           case getApiByKind env kind apiVersion of
             None \<Rightarrow> Inr (empty_message\<lparr>data := Some event\<rparr>, st)
           | Some a \<Rightarrow>
               and_then (ensureObjectSelfLink env a obj) (\<lambda>obj'.
               and_then (get_prop obj' ''metadata'') (\<lambda>metadata.
               and_then (get_prop metadata ''namespace'') (\<lambda>namespace.
               and_then (get_prop metadata ''resourceVersion'') (\<lambda>resourceVersion.
                 Inr (\<lparr>data = Some (set_field ''object'' obj' event), error = None,
                       api = Some a, store = getStore env a\<rparr>,
                      setResourceVersion a (JStr []) resourceVersion
                        (setResourceVersion a namespace resourceVersion st)))))))))
       else if ty = JStr ''ERROR'' then Inr (empty_message\<lparr>error := Some event\<rparr>, st)
       else if ty = JStr ''STREAM_END'' then
         Inr (empty_message, st\<lparr>streamEnds := streamEnds st @ [event]\<rparr>)
       else Inr (empty_message, st))"

subsection \<open>Stream parser\<close>

text \<open>
  \<^verbatim>\<open>processBuffer\<close>: the \<^verbatim>\<open>catch\<close> encloses the parse, \<^verbatim>\<open>getMessage\<close> and the emit, and
  returns the line in hand; the lines after it are not looked at. Listeners are
  taken not to throw.
\<close>

fun processBuffer ::
  "('api, 'store) collaborators \<Rightarrow> ('api, 'store) kube_watch_api \<Rightarrow> string list
   \<Rightarrow> string \<times> ('api, 'store) kube_watch_api" where
  "processBuffer env st [] = ([], st)"
| "processBuffer env st (json # events) =
     (case parse env json of
        None \<Rightarrow> (json, st)
      | Some kubeEvent \<Rightarrow>
          (case getMessage env st kubeEvent of
             Inl e \<Rightarrow> (json, st)
           | Inr (m, st') \<Rightarrow> processBuffer env (emit m st') events))"

text \<open>
  One turn of the read loop of \<^verbatim>\<open>connect\<close> with a chunk in hand:
  \<^verbatim>\<open>jsonBuffer = this.processBuffer((jsonBuffer + value).split("\n"))\<close>.
\<close>

definition read_chunk ::
  "('api, 'store) collaborators \<Rightarrow> string \<times> ('api, 'store) kube_watch_api \<Rightarrow> string
   \<Rightarrow> string \<times> ('api, 'store) kube_watch_api" where
  "read_chunk env bs v = processBuffer env (snd bs) (split_nl (fst bs @ v))"

definition read_chunks ::
  "('api, 'store) collaborators \<Rightarrow> ('api, 'store) kube_watch_api \<Rightarrow> string list
   \<Rightarrow> string \<times> ('api, 'store) kube_watch_api" where
  "read_chunks env st vs = foldl (read_chunk env) ([], st) vs"

subsection \<open>Subscription registry\<close>





subsection \<open>Reconnection after a server stream end\<close>

text \<open>
  \<^verbatim>\<open>onServerStreamEnd\<close> suspends at the refresh call and re-enters itself from a timer.
  What the outside does is a script indexed by the number of the invocation (0 for the
  call made by \<^verbatim>\<open>getMessage\<close>): whether \<^verbatim>\<open>apiManager.getApi\<close> finds the api, how the
  refresh settles and after how many milliseconds, what \<^verbatim>\<open>isActive\<close> is in the
  \<^verbatim>\<open>catch\<close> block, and how late the timer fires (a timer never fires early).
  The function returns what the invocation chain does, with the time of each action.
\<close>

record 'api outside =
  getApi :: "nat \<Rightarrow> 'api option"
  refreshResourceVersion :: "nat \<Rightarrow> js_error option"
  refreshTime :: "nat \<Rightarrow> nat"
  isActive :: "nat \<Rightarrow> bool"
  timerDelay :: "nat \<Rightarrow> nat"

record reconnect_options =
  reconnectAttempts :: int
  timeout :: nat

datatype 'api action =
    Refresh nat 'api
  | Reconnect nat
  | Logged nat log_entry

function onServerStreamEnd ::
  "'api outside \<Rightarrow> nat \<Rightarrow> nat \<Rightarrow> reconnect_options option \<Rightarrow> 'api action list" where
  "onServerStreamEnd w i now opts =
     (case getApi w i of
        None \<Rightarrow> []
      | Some a \<Rightarrow>
          Refresh now a #
          (case refreshResourceVersion w i of
             None \<Rightarrow> [Reconnect (now + refreshTime w i)]
           | Some e \<Rightarrow>
               Logged (now + refreshTime w i)
                 (LogError ''Failed to connect on single stream end'' e) #
               (case opts of
                  None \<Rightarrow> []
                | Some opt \<Rightarrow>
                    if isActive w i \<and> reconnectAttempts opt > 0
                    then onServerStreamEnd w (Suc i)
                           (now + refreshTime w i + timeout opt + timerDelay w i)
                           (Some (opt\<lparr>reconnectAttempts := reconnectAttempts opt - 1\<rparr>))
                    else [])))"
  by pat_completeness auto
termination
  by (relation "measure (\<lambda>(w, i, now, opts).
        case opts of None \<Rightarrow> 0 | Some opt \<Rightarrow> nat (reconnectAttempts opt))") auto

declare onServerStreamEnd.simps [simp del]

text \<open>The call in the \<^verbatim>\<open>STREAM_END\<close> case of \<^verbatim>\<open>getMessage\<close>.\<close>

definition stream_end :: "'api outside \<Rightarrow> nat \<Rightarrow> 'api action list" where
  "stream_end w now =
     onServerStreamEnd w 0 now (Some \<lparr>reconnectAttempts = 5, timeout = 1000\<rparr>)"

fun refresh_times :: "'api action list \<Rightarrow> nat list" where
  "refresh_times [] = []"
| "refresh_times (Refresh t a # xs) = t # refresh_times xs"
| "refresh_times (x # xs) = refresh_times xs"

fun is_log :: "'api action \<Rightarrow> bool" where
  "is_log (Logged t e) = True"
| "is_log x = False"

fun spaced :: "nat \<Rightarrow> nat list \<Rightarrow> bool" where
  "spaced d (t # u # ts) = (t + d \<le> u \<and> spaced d (u # ts))"
| "spaced d ts = True"

subsection \<open>Subscribing stores\<close>

text \<open>
  \<^verbatim>\<open>subscribeStores\<close> returns \<^verbatim>\<open>unsubscribe\<close> at once and leaves a task behind. The
  closure holds \<^verbatim>\<open>isDisposed\<close> and \<^verbatim>\<open>disposers\<close>; \<open>task\<close> says where the task waits and
  \<open>subscribed\<close> lists the store subscriptions made by this call and not yet disposed
  (a disposer is named by its store, and disposing ends one subscription of it).
  The task waits in \<^verbatim>\<open>Promise.all(loading).then(subscribe, ...)\<close> when
  \<^verbatim>\<open>waitUntilLoaded\<close> is set, then in the \<^verbatim>\<open>await\<close> of \<^verbatim>\<open>subscribe\<close>.
\<close>

datatype task_phase = AwaitLoading | AwaitSubscribed | TaskDone

record ('api, 'store) subscribe_stores =
  this :: "('api, 'store) kube_watch_api"
  stores :: "'store list"
  preload :: bool
  isDisposed :: bool
  disposers :: "'store list"
  task :: task_phase
  subscribed :: "'store list"

datatype store_event = Unsubscribe | LoadingSettled "js_error option" | SubscribeSettled

definition unsubscribe :: "('api, 'store) subscribe_stores \<Rightarrow> ('api, 'store) subscribe_stores" where
  "unsubscribe c =
     c\<lparr>isDisposed := True,
       subscribed := fold remove1 (disposers c) (subscribed c),
       disposers := []\<rparr>"

text \<open>The part of \<^verbatim>\<open>subscribe\<close> before its \<^verbatim>\<open>await\<close>, and the part after it.\<close>

definition subscribe_start :: "('api, 'store) subscribe_stores \<Rightarrow> ('api, 'store) subscribe_stores" where
  "subscribe_start c =
     (if isDisposed c then c\<lparr>task := TaskDone\<rparr>
      else c\<lparr>subscribed := subscribed c @ stores c, task := AwaitSubscribed\<rparr>)"

definition subscribe_resume :: "('api, 'store) subscribe_stores \<Rightarrow> ('api, 'store) subscribe_stores" where
  "subscribe_resume c =
     (let c' = c\<lparr>disposers := disposers c @ stores c, task := TaskDone\<rparr>
      in if isDisposed c' then unsubscribe c' else c')"

definition subscribeStores ::
  "('api, 'store) kube_watch_api \<Rightarrow> 'store list \<Rightarrow> bool \<Rightarrow> bool \<Rightarrow> ('api, 'store) subscribe_stores" where
  "subscribeStores st ss pre waitUntilLoaded =
     (let c = \<lparr>this = st, stores = ss, preload = pre, isDisposed = False, disposers = [],
               task = AwaitLoading, subscribed = []\<rparr>
      in if waitUntilLoaded then c else subscribe_start c)"

text \<open>
  \<open>LoadingSettled r\<close> is the settling of \<^verbatim>\<open>Promise.all(loading)\<close>; without \<^verbatim>\<open>preload\<close> the
  list is empty and the promise resolves. When \<^verbatim>\<open>waitUntilLoaded\<close> is off nothing
  waits for the promise, and its settling changes nothing. An event the task does not
  wait for changes nothing.
\<close>

fun store_step ::
  "('api, 'store) collaborators \<Rightarrow> ('api, 'store) subscribe_stores \<Rightarrow> store_event
   \<Rightarrow> ('api, 'store) subscribe_stores" where
  "store_step env c Unsubscribe = unsubscribe c"
| "store_step env c (LoadingSettled r) =
     (if task c \<noteq> AwaitLoading then c
      else (case (if preload c then r else None) of
              Some e \<Rightarrow> c\<lparr>this := log env (LogError ''Loading stores has failed'' e) (this c),
                          task := TaskDone\<rparr>
            | None \<Rightarrow> subscribe_start c))"
| "store_step env c SubscribeSettled =
     (if task c \<noteq> AwaitSubscribed then c else subscribe_resume c)"

subsection \<open>Connection manager\<close>

definition disconnect :: "('api, 'store) kube_watch_api \<Rightarrow> ('api, 'store) kube_watch_api" where
  "disconnect st =
     (case reader st of
        None \<Rightarrow> st\<lparr>reader := None, isConnected := False\<rparr>
      | Some r \<Rightarrow> st\<lparr>cancelled := cancelled st @ [r], reader := None, isConnected := False\<rparr>)"

text \<open>
  A call of \<^verbatim>\<open>connect\<close> runs in pieces, one between each two of its \<^verbatim>\<open>await\<close>s, and the
  pieces of several calls interleave. A call that got a request id is named by it.
  \<open>settled\<close> records how the promise of each finished call settled: \<open>Inr ()\<close> resolved,
  \<open>Inl e\<close> rejected with \<open>e\<close>.
\<close>

datatype call_phase = AwaitFetch | AwaitRead | Returned

record connect_call =
  phase :: call_phase
  jsonBuffer :: string

record ('api, 'store) system =
  client :: "('api, 'store) kube_watch_api"
  calls :: "nat \<rightharpoonup> connect_call"
  settled :: "(nat option \<times> (js_error + unit)) list"

datatype net_event =
    Connect bool "string list"
  | FetchSettled nat "js_error option"
  | ReadValue nat string
  | ReadDone nat
  | ReadRejected nat js_error
  | Offline

text \<open>
  The body of the \<^verbatim>\<open>try\<close> block, piece by piece. \<open>Inl e\<close> is a throw of \<open>e\<close>, which
  happens at an \<^verbatim>\<open>await\<close> whose promise rejects; \<open>Inr (st, True)\<close> reaches the next
  \<^verbatim>\<open>await\<close>, \<open>Inr (st, False)\<close> leaves the block by \<^verbatim>\<open>return\<close> or \<^verbatim>\<open>break\<close>.
\<close>

definition try_fetched ::
  "nat \<Rightarrow> js_error option \<Rightarrow> ('api, 'store) kube_watch_api
   \<Rightarrow> js_error + (('api, 'store) kube_watch_api \<times> bool)" where
  "try_fetched rid rejected st =
     (case rejected of
        Some e \<Rightarrow> Inl e
      | None \<Rightarrow>
          if requestId st \<noteq> rid then Inr (st\<lparr>aborted := aborted st @ [rid]\<rparr>, False)
          else Inr (st\<lparr>isConnected := True, reader := Some rid\<rparr>, True))"

text \<open>The \<^verbatim>\<open>catch\<close> and \<^verbatim>\<open>finally\<close> clauses around a piece of the \<^verbatim>\<open>try\<close> block.\<close>

definition catch_finally ::
  "('api, 'store) collaborators \<Rightarrow> ('api, 'store) kube_watch_api
   \<Rightarrow> js_error + (('api, 'store) kube_watch_api \<times> bool)
   \<Rightarrow> ('api, 'store) kube_watch_api \<times> (js_error + unit) option" where
  "catch_finally env st r =
     (case r of
        Inl e \<Rightarrow> ((log env (LogCaught e) st)\<lparr>isConnected := False\<rparr>, Some (Inr ()))
      | Inr (st', continue) \<Rightarrow>
          if continue then (st', None) else (st'\<lparr>isConnected := False\<rparr>, Some (Inr ())))"

definition finish ::
  "nat \<Rightarrow> connect_call \<Rightarrow> ('api, 'store) kube_watch_api \<times> (js_error + unit) option
   \<Rightarrow> call_phase \<Rightarrow> ('api, 'store) system \<Rightarrow> ('api, 'store) system" where
  "finish rid c r next sys =
     (case snd r of
        None \<Rightarrow> sys\<lparr>client := fst r, calls := (calls sys)(rid \<mapsto> c\<lparr>phase := next\<rparr>)\<rparr>
      | Some outcome \<Rightarrow>
          sys\<lparr>client := fst r, calls := (calls sys)(rid \<mapsto> c\<lparr>phase := Returned\<rparr>),
              settled := settled sys @ [(Some rid, outcome)]\<rparr>)"

fun exec ::
  "('api, 'store) collaborators \<Rightarrow> ('api, 'store) system \<Rightarrow> net_event \<Rightarrow> ('api, 'store) system" where
  "exec env sys (Connect onLine apis) =
     (let st = disconnect (client sys)
      in if \<not> onLine \<or> apis = []
         then sys\<lparr>client := st\<lparr>isConnected := False\<rparr>,
                  settled := settled sys @ [(None, Inr ())]\<rparr>
         else let st' = log env (LogInfo ''Connecting'') st;
                  rid = requestId st' + 1
              in sys\<lparr>client := st'\<lparr>requestId := rid\<rparr>,
                     calls := (calls sys)(rid \<mapsto> \<lparr>phase = AwaitFetch, jsonBuffer = []\<rparr>)\<rparr>)"
| "exec env sys (FetchSettled rid rejected) =
     (case calls sys rid of
        None \<Rightarrow> sys
      | Some c \<Rightarrow>
          if phase c \<noteq> AwaitFetch then sys
          else finish rid (c\<lparr>jsonBuffer := []\<rparr>)
                 (catch_finally env (client sys) (try_fetched rid rejected (client sys)))
                 AwaitRead sys)"
| "exec env sys (ReadValue rid v) =
     (case calls sys rid of
        None \<Rightarrow> sys
      | Some c \<Rightarrow>
          if phase c \<noteq> AwaitRead then sys
          else let r = read_chunk env (jsonBuffer c, client sys) v
               in finish rid (c\<lparr>jsonBuffer := fst r\<rparr>)
                    (catch_finally env (client sys) (Inr (snd r, True))) AwaitRead sys)"
| "exec env sys (ReadDone rid) =
     (case calls sys rid of
        None \<Rightarrow> sys
      | Some c \<Rightarrow>
          if phase c \<noteq> AwaitRead then sys
          else finish rid c (catch_finally env (client sys) (Inr (client sys, False)))
                 AwaitRead sys)"
| "exec env sys (ReadRejected rid e) =
     (case calls sys rid of
        None \<Rightarrow> sys
      | Some c \<Rightarrow>
          if phase c \<noteq> AwaitRead then sys
          else finish rid c (catch_finally env (client sys) (Inl e)) AwaitRead sys)"
| "exec env sys Offline = sys\<lparr>client := disconnect (client sys)\<rparr>"

definition run ::
  "('api, 'store) collaborators \<Rightarrow> ('api, 'store) system \<Rightarrow> net_event list \<Rightarrow> ('api, 'store) system" where
  "run env sys evs = foldl (exec env) sys evs"

fun event_call :: "net_event \<Rightarrow> nat option" where
  "event_call (Connect onLine apis) = None"
| "event_call (FetchSettled rid r) = Some rid"
| "event_call (ReadValue rid v) = Some rid"
| "event_call (ReadDone rid) = Some rid"
| "event_call (ReadRejected rid e) = Some rid"
| "event_call Offline = None"

subsection \<open>A new client and example collaborators\<close>

definition new_client :: "('api, 'store) kube_watch_api" where
  "new_client =
     \<lparr>requestId = 0, reader = None, isConnected = False, subscribers = Map.empty,
      resourceVersions = Map.empty, emitted = [], streamEnds = [], console = [],
      cancelled = [], aborted = []\<rparr>"

definition new_system :: "('api, 'store) system" where
  "new_system = \<lparr>client = new_client, calls = Map.empty, settled = []\<rparr>"

text \<open>
  Collaborators for running the client on examples: one api, registered for kind
  \<^verbatim>\<open>Pod\<close> of version \<^verbatim>\<open>v1\<close>, with its store; the console enabled.
  Modelled from the spec: \<^verbatim>\<open>ensureObjectSelfLink\<close> (\<^verbatim>\<open>kube-api.ts\<close>) "normalizes the
  object's self-referencing link if absent"; here the link written is the api's name.
\<close>

definition example_selfLink :: "string \<Rightarrow> json \<Rightarrow> js_error + json" where
  "example_selfLink a obj =
     and_then (get_prop obj ''metadata'') (\<lambda>metadata.
     and_then (get_prop metadata ''selfLink'') (\<lambda>link.
       Inr (if link = JUndefined
            then set_field ''metadata'' (set_field ''selfLink'' (JStr a) metadata) obj
            else obj)))"

definition example_env :: "(string, string) collaborators" where
  "example_env =
     \<lparr>parse = JSON_parse,
      getApiByKind = (\<lambda>kind apiVersion.
         if kind = JStr ''Pod'' \<and> apiVersion = JStr ''v1'' then Some ''pods'' else None),
      getStore = (\<lambda>a. Some (a @ ''-store'')),
      ensureObjectSelfLink = example_selfLink,
      isProduction = False,
      isDebugging = False\<rparr>"

subsection \<open>What the resumption table should hold\<close>






subsection \<open>Schedules, examples and notions used in the proofs\<close>

definition store_run ::
  "('api, 'store) collaborators \<Rightarrow> ('api, 'store) subscribe_stores \<Rightarrow> store_event list
   \<Rightarrow> ('api, 'store) subscribe_stores" where
  "store_run env c evs = foldl (store_step env) c evs"

text \<open>
  An outside in which the api is found, \<^verbatim>\<open>isActive\<close> holds and every refresh fails
  after 20 ms; timers fire 3 ms late.
\<close>

definition failing :: "string outside" where
  "failing =
     \<lparr>getApi = (\<lambda>i. Some ''pods''),
      refreshResourceVersion = (\<lambda>i. Some (Failure ''offline'')),
      refreshTime = (\<lambda>i. 20),
      isActive = (\<lambda>i. True),
      timerDelay = (\<lambda>i. 3)\<rparr>"


text \<open>
  What holds of the closure of \<^verbatim>\<open>subscribeStores\<close> at every moment: before the stores
  are subscribed nothing is held; while \<^verbatim>\<open>subscribe\<close> waits, the stores are subscribed
  and no disposer is stored yet; afterwards the subscriptions held are those of the
  stored disposers, and none once disposed.
\<close>

definition stores_inv :: "('api, 'store) subscribe_stores \<Rightarrow> bool" where
  "stores_inv c =
     ((task c = AwaitLoading \<longrightarrow> subscribed c = [] \<and> disposers c = [])
      \<and> (task c = AwaitSubscribed \<longrightarrow> subscribed c = stores c \<and> disposers c = [])
      \<and> (task c = TaskDone \<longrightarrow> subscribed c = disposers c \<and> (isDisposed c \<longrightarrow> disposers c = [])))"

text \<open>
  Request ids are handed out in increasing order: every call has an id that the
  counter has reached.
\<close>

definition ids_issued :: "('api, 'store) system \<Rightarrow> bool" where
  "ids_issued sys = (\<forall>rid c. calls sys rid = Some c \<longrightarrow> rid \<le> requestId (client sys))"

text \<open>
  A call is superseded when a later call has taken a newer request id before this one
  has confirmed its own: it still waits for its fetch, or has returned from there.
\<close>

definition superseded :: "('api, 'store) system \<Rightarrow> nat \<Rightarrow> bool" where
  "superseded sys rid =
     (rid < requestId (client sys)
      \<and> (\<exists>c. calls sys rid = Some c \<and> phase c \<noteq> AwaitRead))"


section \<open>Properties of the dispatcher and the stream parser\<close>

lemma and_then_Inr_iff:
  "and_then r f = Inr y \<longleftrightarrow> (\<exists>x. r = Inr x \<and> f x = Inr y)"
  by (cases r) (auto simp: and_then_def)








text \<open>
  Claim C2, evaluated on the code. The claim has a line that fails to parse become the
  carried-over buffer together with every line after it, so that no line is dropped.
  \<open>processBuffer\<close> returns the failing line alone. Here the lines are those of a chunk
  with an empty line between two events: the first event is dispatched, the empty line
  fails to parse and is returned as the buffer, and the second event is neither
  dispatched nor kept.
\<close>

theorem processBuffer_drops_lines_after_failure:
  \<open>fst (processBuffer example_env new_client
          [''{"type":"ERROR","n":1}'', [], ''{"type":"ERROR","n":2}'', []]) = []
   \<and> emitted (snd (processBuffer example_env new_client
          [''{"type":"ERROR","n":1}'', [], ''{"type":"ERROR","n":2}'', []]))
       = [empty_message\<lparr>error := Some (JObj [(''type'', JStr ''ERROR''), (''n'', JNum 1)])\<rparr>]\<close>
  by code_simp

text \<open>
  Claim C3, evaluated on the code. The claim has the same events dispatched however the
  text is cut into chunks. Two lines, each a well-formed event, are fed first as one
  chunk and then as two chunks cut between the first event and its newline. As one
  chunk both events are dispatched. Cut in two, the first chunk is a complete JSON text
  and is dispatched at once; the second chunk then starts with the newline, its first
  line is empty and fails to parse, and \<open>processBuffer\<close> returns without looking at
  the second event, which is lost.
\<close>

theorem chunk_cut_before_newline_loses_event:
  \<open>map error (emitted (snd (read_chunks example_env new_client
      [''{"type":"ERROR","n":1}'' @ [NL] @ ''{"type":"ERROR","n":2}'' @ [NL]])))
     = [Some (JObj [(''type'', JStr ''ERROR''), (''n'', JNum 1)]),
        Some (JObj [(''type'', JStr ''ERROR''), (''n'', JNum 2)])]
   \<and> map error (emitted (snd (read_chunks example_env new_client
      [''{"type":"ERROR","n":1}'', [NL] @ ''{"type":"ERROR","n":2}'' @ [NL]])))
     = [Some (JObj [(''type'', JStr ''ERROR''), (''n'', JNum 1)])]\<close>
  by code_simp







section \<open>Properties of the subscription registry\<close>











section \<open>Properties of the reconnection after a stream end\<close>

lemma refresh_times_hd:
  "refresh_times (onServerStreamEnd w i now opts) = []
   \<or> (\<exists>ts. refresh_times (onServerStreamEnd w i now opts) = now # ts)"
  by (cases "getApi w i") (simp_all add: onServerStreamEnd.simps[of w i now opts])

lemma spaced_Cons:
  "spaced d (t # ts) \<longleftrightarrow> (ts = [] \<or> (t + d \<le> hd ts \<and> spaced d ts))"
  by (cases ts) simp_all

text \<open>
  The number of refresh calls is at most one more than the attempts left, and two
  consecutive calls are at least the timeout apart.
\<close>

lemma onServerStreamEnd_bounds:
  "length (refresh_times (onServerStreamEnd w i now (Some opt))) \<le> nat (reconnectAttempts opt) + 1
   \<and> spaced (timeout opt) (refresh_times (onServerStreamEnd w i now (Some opt)))"
proof (induction w i now "Some opt" arbitrary: opt rule: onServerStreamEnd.induct)
  case (1 w i now)
  note unf = onServerStreamEnd.simps[of w i now "Some opt"]
  show ?case
  proof (cases "getApi w i")
    case None
    then show ?thesis by (simp add: unf)
  next
    case (Some a)
    show ?thesis
    proof (cases "refreshResourceVersion w i")
      case None
      with Some show ?thesis by (simp add: unf)
    next
      case e: (Some e)
      show ?thesis
      proof (cases "isActive w i \<and> reconnectAttempts opt > 0")
        case False
        with Some e show ?thesis by (auto simp: unf)
      next
        case True
        let ?opt' = "opt\<lparr>reconnectAttempts := reconnectAttempts opt - 1\<rparr>"
        let ?now' = "now + refreshTime w i + timeout opt + timerDelay w i"
        let ?rest = "refresh_times (onServerStreamEnd w (Suc i) ?now' (Some ?opt'))"
        from "1.hyps"[OF Some e refl True]
        have ih: "length ?rest \<le> nat (reconnectAttempts ?opt') + 1"
                 "spaced (timeout ?opt') ?rest"
          by simp_all
        have unfold: "refresh_times (onServerStreamEnd w i now (Some opt)) = now # ?rest"
          using Some e True by (simp add: unf)
        have "nat (reconnectAttempts ?opt') + 1 = nat (reconnectAttempts opt)"
          using True by simp arith
        with ih(1) have len: "length (now # ?rest) \<le> nat (reconnectAttempts opt) + 1"
          by simp
        have "?rest = [] \<or> (\<exists>ts. ?rest = ?now' # ts)"
          by (rule refresh_times_hd)
        then have sp: "spaced (timeout opt) (now # ?rest)"
          using ih(2) by (auto simp: spaced_Cons)
        show ?thesis
          unfolding unfold using len sp by simp
      qed
    qed
  qed
qed

text \<open>
  When the api is found, the refresh fails and the client is active every time, the
  chain makes one refresh call more than the attempts it was given, and does nothing
  else than log each failure.
\<close>

lemma onServerStreamEnd_all_fail:
  assumes "\<forall>j. getApi w j \<noteq> None \<and> refreshResourceVersion w j \<noteq> None \<and> isActive w j"
    and "0 \<le> reconnectAttempts opt"
  shows "length (refresh_times (onServerStreamEnd w i now (Some opt)))
           = nat (reconnectAttempts opt) + 1
       \<and> list_all is_log
           (filter (\<lambda>x. refresh_times [x] = []) (onServerStreamEnd w i now (Some opt)))"
  using assms
proof (induction w i now "Some opt" arbitrary: opt rule: onServerStreamEnd.induct)
  case (1 w i now)
  note unf = onServerStreamEnd.simps[of w i now "Some opt"]
  from "1.prems"(1) have "getApi w i \<noteq> None" "refreshResourceVersion w i \<noteq> None"
    and act: "isActive w i"
    by blast+
  then obtain a e where a: "getApi w i = Some a" and e: "refreshResourceVersion w i = Some e"
    by blast
  show ?case
  proof (cases "reconnectAttempts opt > 0")
    case False
    with a e "1.prems"(2) show ?thesis by (simp add: unf)
  next
    case True
    with act have c: "isActive w i \<and> 0 < reconnectAttempts opt" by simp
    let ?opt' = "opt\<lparr>reconnectAttempts := reconnectAttempts opt - 1\<rparr>"
    have n: "nat (reconnectAttempts ?opt') + 1 = nat (reconnectAttempts opt)"
      using True by simp
    have "0 \<le> reconnectAttempts ?opt'"
      using True by simp
    from "1.hyps"[OF a e refl c "1.prems"(1) this] n
    show ?thesis
      using a e c by (simp add: unf)
  qed
qed

lemma failing_step:
  "onServerStreamEnd failing i now (Some opt) =
     Refresh now ''pods'' #
     Logged (now + 20) (LogError ''Failed to connect on single stream end'' (Failure ''offline'')) #
     (if reconnectAttempts opt > 0
      then onServerStreamEnd failing (Suc i) (now + 20 + timeout opt + 3)
             (Some (opt\<lparr>reconnectAttempts := reconnectAttempts opt - 1\<rparr>))
      else [])"
  by (subst onServerStreamEnd.simps) (simp add: failing_def)

text \<open>
  Claim C6 as stated fails: the budget of 5 counts the retries, not the refresh calls.
  The call made for the \<^verbatim>\<open>STREAM_END\<close> event refreshes once before the counter is
  looked at, and each of the 5 retries refreshes again. With every refresh failing and
  the client active there are 6 refresh calls.
\<close>

theorem stream_end_six_refreshes:
  "refresh_times (stream_end failing 0) = [0, 1023, 2046, 3069, 4092, 5115]
   \<and> \<not> length (refresh_times (stream_end failing 0)) \<le> 5"
proof -
  have "refresh_times (stream_end failing 0) = [0, 1023, 2046, 3069, 4092, 5115]"
    unfolding stream_end_def
    apply (subst failing_step, simp)
    apply (subst failing_step, simp)
    apply (subst failing_step, simp)
    apply (subst failing_step, simp)
    apply (subst failing_step, simp)
    apply (subst failing_step, simp)
    done
  then show ?thesis by simp
qed

text \<open>
  Claim C6, amended. A \<^verbatim>\<open>STREAM_END\<close> event triggers at most 6 refresh calls, the first
  one and at most 5 retries, and two consecutive calls are at least 1000 ms apart. If
  the refresh keeps failing while the api is found and the client stays active, there
  are exactly 6 calls and everything else the chain does is logging the failures: it
  then stops, with no reconnect and no error passed on.
\<close>

theorem stream_end_refreshes:
  "length (refresh_times (stream_end w now)) \<le> 6
   \<and> spaced 1000 (refresh_times (stream_end w now))
   \<and> ((\<forall>j. getApi w j \<noteq> None \<and> refreshResourceVersion w j \<noteq> None \<and> isActive w j)
        \<longrightarrow> length (refresh_times (stream_end w now)) = 6
          \<and> list_all is_log (filter (\<lambda>x. refresh_times [x] = []) (stream_end w now)))"
proof -
  define opt where "opt = \<lparr>reconnectAttempts = 5, timeout = 1000\<rparr>"
  have r: "nat (reconnectAttempts opt) + 1 = 6" "timeout opt = 1000" "0 \<le> reconnectAttempts opt"
    by (simp_all add: opt_def)
  have s: "stream_end w now = onServerStreamEnd w 0 now (Some opt)"
    by (simp add: stream_end_def opt_def)
  from onServerStreamEnd_bounds[of w 0 now opt]
  have b: "length (refresh_times (stream_end w now)) \<le> 6"
          "spaced 1000 (refresh_times (stream_end w now))"
    unfolding s r(1) r(2) by (rule conjunct1, rule conjunct2)
  show ?thesis
  proof (intro conjI impI)
    show "length (refresh_times (stream_end w now)) \<le> 6" by (rule b(1))
    show "spaced 1000 (refresh_times (stream_end w now))" by (rule b(2))
  next
    assume h: "\<forall>j. getApi w j \<noteq> None \<and> refreshResourceVersion w j \<noteq> None \<and> isActive w j"
    from onServerStreamEnd_all_fail[OF h r(3), of 0 now]
    show "length (refresh_times (stream_end w now)) = 6"
      unfolding s r(1) by (rule conjunct1)
  next
    assume h: "\<forall>j. getApi w j \<noteq> None \<and> refreshResourceVersion w j \<noteq> None \<and> isActive w j"
    from onServerStreamEnd_all_fail[OF h r(3), of 0 now]
    show "list_all is_log (filter (\<lambda>x. refresh_times [x] = []) (stream_end w now))"
      unfolding s by (rule conjunct2)
  qed
qed

theorem stream_end_refreshes_witness:
  "(\<forall>j. getApi failing j \<noteq> None \<and> refreshResourceVersion failing j \<noteq> None \<and> isActive failing j)
   \<and> length (refresh_times (stream_end failing 0)) = 6
   \<and> spaced 1000 (refresh_times (stream_end failing 0))
   \<and> list_all is_log (filter (\<lambda>x. refresh_times [x] = []) (stream_end failing 0))"
proof -
  have h: "\<forall>j. getApi failing j \<noteq> None \<and> refreshResourceVersion failing j \<noteq> None
             \<and> isActive failing j"
    by (simp add: failing_def)
  with stream_end_refreshes[of failing 0] show ?thesis
    by blast
qed

section \<open>Properties of subscribing stores\<close>

lemma fold_remove1_self: "fold remove1 xs (xs @ ys) = ys"
  by (induction xs) simp_all

lemma stores_inv_start: "stores_inv (subscribeStores st ss pre w)"
  by (simp add: subscribeStores_def stores_inv_def subscribe_start_def Let_def)

lemma stores_inv_step:
  assumes "stores_inv c"
  shows "stores_inv (store_step env c ev)"
proof (cases ev)
  case Unsubscribe
  with assms show ?thesis
    using fold_remove1_self[of "disposers c" "[]"]
    by (auto simp: stores_inv_def unsubscribe_def)
next
  case (LoadingSettled r)
  with assms show ?thesis
    by (auto simp: stores_inv_def subscribe_start_def split: option.splits)
next
  case SubscribeSettled
  with assms show ?thesis
    using fold_remove1_self[of "stores c" "[]"]
    by (auto simp: stores_inv_def subscribe_resume_def unsubscribe_def Let_def)
qed

lemma stores_inv_run:
  assumes "stores_inv c"
  shows "stores_inv (store_run env c evs)"
  using assms unfolding store_run_def
  by (induction evs arbitrary: c) (simp_all add: stores_inv_step)

lemma isDisposed_step:
  "isDisposed (store_step env c ev) \<longleftrightarrow> isDisposed c \<or> ev = Unsubscribe"
  by (cases ev)
     (auto simp: unsubscribe_def subscribe_start_def subscribe_resume_def Let_def
           split: option.splits)

lemma isDisposed_run:
  "isDisposed (store_run env c evs) \<longleftrightarrow> isDisposed c \<or> Unsubscribe \<in> set evs"
  unfolding store_run_def
  by (induction evs arbitrary: c) (auto simp: isDisposed_step)

lemma done_step:
  assumes "task c = TaskDone" "subscribed c = []" "disposers c = []"
  shows "task (store_step env c ev) = TaskDone \<and> subscribed (store_step env c ev) = []
       \<and> disposers (store_step env c ev) = [] \<and> this (store_step env c ev) = this c"
  using assms by (cases ev) (simp_all add: unsubscribe_def)

lemma done_run:
  assumes "task c = TaskDone" "subscribed c = []" "disposers c = []"
  shows "subscribed (store_run env c evs) = [] \<and> this (store_run env c evs) = this c"
  using assms unfolding store_run_def
proof (induction evs arbitrary: c)
  case Nil
  then show ?case by simp
next
  case (Cons ev evs)
  from done_step[OF Cons.prems, of env ev] Cons.IH[of "store_step env c ev"]
  show ?case by simp
qed

lemma unsubscribe_loading:
  "store_run env (subscribeStores st ss pre True) (replicate n Unsubscribe)
     = (subscribeStores st ss pre True)\<lparr>isDisposed := (0 < n)\<rparr>"
  unfolding store_run_def
proof (induction n)
  case 0
  show ?case by (simp add: subscribeStores_def)
next
  case (Suc n)
  have "replicate (Suc n) Unsubscribe = replicate n Unsubscribe @ [Unsubscribe]"
    by (simp add: replicate_append_same)
  with Suc show ?case
    by (simp add: subscribeStores_def unsubscribe_def)
qed

text \<open>
  Claim C7 as stated fails for the calls with \<^verbatim>\<open>preload\<close> on and \<^verbatim>\<open>waitUntilLoaded\<close> off:
  nobody waits for the loading promises, so when the preloading fails nothing is
  logged, and the stores are subscribed all the same.
\<close>

theorem preload_failure_ignored_without_wait:
  "subscribed (store_run example_env (subscribeStores new_client [''pods-store''] True False)
       [LoadingSettled (Some (Failure ''forbidden'')), SubscribeSettled]) = [''pods-store'']
   \<and> console (this (store_run example_env (subscribeStores new_client [''pods-store''] True False)
       [LoadingSettled (Some (Failure ''forbidden'')), SubscribeSettled])) = []"
  by (simp add: store_run_def subscribeStores_def subscribe_start_def subscribe_resume_def
        new_client_def)

text \<open>
  Claim C7, amended. With \<^verbatim>\<open>waitUntilLoaded\<close> set, if the preloading fails, the failure is
  passed to the logger and no store is ever subscribed by the call, whatever happens
  before and after. And for every call, with any options and at whatever moments
  \<^verbatim>\<open>unsubscribe\<close> is invoked (before the subscription starts, while it waits, or after it
  completes): once it has been invoked and the task of the call has finished, no
  store subscription of the call remains. Store subscriptions are taken to succeed.
\<close>

theorem subscribeStores_disposal:
  "(let c = store_run env (subscribeStores st ss True True)
              (replicate n Unsubscribe @ LoadingSettled (Some e) # evs)
    in subscribed c = [] \<and> this c = log env (LogError ''Loading stores has failed'' e) st)
   \<and> (let c = store_run env (subscribeStores st ss pre w) sched
      in Unsubscribe \<in> set sched \<and> task c = TaskDone \<longrightarrow> subscribed c = [])"
proof (intro conjI)
  let ?c0 = "subscribeStores st ss True True"
  let ?c1 = "store_step env (?c0\<lparr>isDisposed := (0 < n)\<rparr>) (LoadingSettled (Some e))"
  have run: "store_run env ?c0 (replicate n Unsubscribe @ LoadingSettled (Some e) # evs)
           = store_run env ?c1 evs"
    using unsubscribe_loading[of env st ss True n]
    by (simp add: store_run_def)
  have c1: "task ?c1 = TaskDone" "subscribed ?c1 = []" "disposers ?c1 = []"
    "this ?c1 = log env (LogError ''Loading stores has failed'' e) st"
    by (simp_all add: subscribeStores_def)
  from done_run[OF c1(1-3), of env evs] c1(4)
  show "let c = store_run env ?c0 (replicate n Unsubscribe @ LoadingSettled (Some e) # evs)
        in subscribed c = [] \<and> this c = log env (LogError ''Loading stores has failed'' e) st"
    unfolding run by simp
next
  let ?c = "store_run env (subscribeStores st ss pre w) sched"
  have inv: "stores_inv ?c"
    by (rule stores_inv_run) (rule stores_inv_start)
  have "isDisposed ?c \<longleftrightarrow> Unsubscribe \<in> set sched"
    by (simp add: isDisposed_run subscribeStores_def subscribe_start_def Let_def)
  with inv show "let c = ?c in Unsubscribe \<in> set sched \<and> task c = TaskDone \<longrightarrow> subscribed c = []"
    by (auto simp: stores_inv_def Let_def)
qed

theorem subscribeStores_disposal_witness:
  "subscribed (store_run example_env (subscribeStores new_client [''pods-store''] True True)
       (replicate 1 Unsubscribe @ LoadingSettled (Some (Failure ''forbidden'')) # [SubscribeSettled])) = []
   \<and> console (this (store_run example_env (subscribeStores new_client [''pods-store''] True True)
       (replicate 1 Unsubscribe @ LoadingSettled (Some (Failure ''forbidden'')) # [SubscribeSettled])))
      = [LogError ''Loading stores has failed'' (Failure ''forbidden'')]
   \<and> Unsubscribe \<in> set [LoadingSettled None, Unsubscribe, SubscribeSettled]
   \<and> task (store_run example_env (subscribeStores new_client [''pods-store''] True True)
        [LoadingSettled None, Unsubscribe, SubscribeSettled]) = TaskDone
   \<and> subscribed (store_run example_env (subscribeStores new_client [''pods-store''] True True)
        [LoadingSettled None, Unsubscribe, SubscribeSettled]) = []"
proof -
  have t: "task (store_run example_env (subscribeStores new_client [''pods-store''] True True)
        [LoadingSettled None, Unsubscribe, SubscribeSettled]) = TaskDone"
    by (simp add: store_run_def subscribeStores_def subscribe_start_def subscribe_resume_def
          unsubscribe_def)
  have l: "console (log example_env (LogError ''Loading stores has failed'' (Failure ''forbidden''))
             new_client) = [LogError ''Loading stores has failed'' (Failure ''forbidden'')]"
    by (simp add: log_def example_env_def new_client_def)
  from subscribeStores_disposal[where env = example_env and st = new_client
         and ss = "[''pods-store'']" and n = 1 and e = "Failure ''forbidden''"
         and evs = "[SubscribeSettled]" and pre = True and w = True
         and sched = "[LoadingSettled None, Unsubscribe, SubscribeSettled]"] t l
  show ?thesis
    by (simp add: Let_def)
qed

section \<open>Properties of the connection manager\<close>

lemma getMessage_frame:
  assumes "getMessage env st ev = Inr (m, st')"
  shows "requestId st' = requestId st \<and> reader st' = reader st
       \<and> isConnected st' = isConnected st \<and> console st' = console st
       \<and> cancelled st' = cancelled st \<and> aborted st' = aborted st
       \<and> subscribers st' = subscribers st"
  using assms
  by (auto simp: getMessage_def and_then_Inr_iff setResourceVersion_def
           split: if_splits option.splits)

lemma processBuffer_frame:
  "requestId (snd (processBuffer env st ls)) = requestId st
   \<and> reader (snd (processBuffer env st ls)) = reader st
   \<and> isConnected (snd (processBuffer env st ls)) = isConnected st
   \<and> console (snd (processBuffer env st ls)) = console st
   \<and> cancelled (snd (processBuffer env st ls)) = cancelled st
   \<and> aborted (snd (processBuffer env st ls)) = aborted st
   \<and> subscribers (snd (processBuffer env st ls)) = subscribers st"
proof (induction ls arbitrary: st)
  case Nil
  show ?case by simp
next
  case (Cons l ls)
  show ?case
  proof (cases "parse env l")
    case None
    then show ?thesis by simp
  next
    case (Some ev)
    show ?thesis
    proof (cases "getMessage env st ev")
      case (Inl e)
      with Some show ?thesis by simp
    next
      case (Inr r)
      obtain m st' where r: "r = (m, st')" by (cases r)
      from getMessage_frame[OF Inr[unfolded r]] Cons.IH[of "emit m st'"]
      show ?thesis
        using Some Inr r by (simp add: emit_def)
    qed
  qed
qed

lemma read_chunk_frame:
  "requestId (snd (read_chunk env (b, st) v)) = requestId st
   \<and> reader (snd (read_chunk env (b, st) v)) = reader st
   \<and> isConnected (snd (read_chunk env (b, st) v)) = isConnected st
   \<and> cancelled (snd (read_chunk env (b, st) v)) = cancelled st"
  using processBuffer_frame[of env st "split_nl (b @ v)"]
  by (simp add: read_chunk_def)

lemma log_frame:
  "requestId (log env x st) = requestId st \<and> emitted (log env x st) = emitted st
   \<and> reader (log env x st) = reader st \<and> isConnected (log env x st) = isConnected st
   \<and> cancelled (log env x st) = cancelled st \<and> aborted (log env x st) = aborted st"
  by (simp add: log_def)

lemma disconnect_frame:
  "requestId (disconnect st) = requestId st \<and> emitted (disconnect st) = emitted st
   \<and> reader (disconnect st) = None \<and> \<not> isConnected (disconnect st)
   \<and> console (disconnect st) = console st
   \<and> (\<forall>r. reader st = Some r \<longrightarrow> cancelled (disconnect st) = cancelled st @ [r])"
  by (simp add: disconnect_def split: option.splits)

lemma catch_finally_Inl:
  "catch_finally env st (Inl e) = ((log env (LogCaught e) st)\<lparr>isConnected := False\<rparr>, Some (Inr ()))"
  by (simp add: catch_finally_def)

lemma catch_finally_Inr:
  "catch_finally env st (Inr (s, b)) =
     (if b then (s, None) else (s\<lparr>isConnected := False\<rparr>, Some (Inr ())))"
  by (simp add: catch_finally_def)

lemma exec_no_call:
  assumes "calls sys rid = None"
  shows "exec env sys (FetchSettled rid r) = sys" "exec env sys (ReadValue rid v) = sys"
    "exec env sys (ReadDone rid) = sys" "exec env sys (ReadRejected rid e) = sys"
  using assms by simp_all

lemma exec_fetch_other:
  assumes "calls sys rid = Some c" and "phase c \<noteq> AwaitFetch"
  shows "exec env sys (FetchSettled rid r) = sys"
  using assms by simp

lemma exec_read_other:
  assumes "calls sys rid = Some c" and "phase c \<noteq> AwaitRead"
  shows "exec env sys (ReadValue rid v) = sys" "exec env sys (ReadDone rid) = sys"
    "exec env sys (ReadRejected rid e) = sys"
  using assms by simp_all

lemma exec_fetch_rejected:
  assumes "calls sys rid = Some c" and "phase c = AwaitFetch"
  shows "exec env sys (FetchSettled rid (Some e)) =
     sys\<lparr>client := (log env (LogCaught e) (client sys))\<lparr>isConnected := False\<rparr>,
         calls := (calls sys)(rid \<mapsto> c\<lparr>jsonBuffer := [], phase := Returned\<rparr>),
         settled := settled sys @ [(Some rid, Inr ())]\<rparr>"
  using assms by (simp add: try_fetched_def catch_finally_Inl finish_def)

lemma exec_fetch_stale:
  assumes "calls sys rid = Some c" and "phase c = AwaitFetch" and "requestId (client sys) \<noteq> rid"
  shows "exec env sys (FetchSettled rid None) =
     sys\<lparr>client := (client sys)\<lparr>aborted := aborted (client sys) @ [rid], isConnected := False\<rparr>,
         calls := (calls sys)(rid \<mapsto> c\<lparr>jsonBuffer := [], phase := Returned\<rparr>),
         settled := settled sys @ [(Some rid, Inr ())]\<rparr>"
  using assms by (simp add: try_fetched_def catch_finally_Inr finish_def)

lemma exec_fetch_current:
  assumes "calls sys rid = Some c" and "phase c = AwaitFetch" and "requestId (client sys) = rid"
  shows "exec env sys (FetchSettled rid None) =
     sys\<lparr>client := (client sys)\<lparr>isConnected := True, reader := Some rid\<rparr>,
         calls := (calls sys)(rid \<mapsto> c\<lparr>jsonBuffer := [], phase := AwaitRead\<rparr>)\<rparr>"
  using assms by (simp add: try_fetched_def catch_finally_Inr finish_def)

lemma exec_read_value:
  assumes "calls sys rid = Some c" and "phase c = AwaitRead"
  shows "exec env sys (ReadValue rid v) =
     sys\<lparr>client := snd (read_chunk env (jsonBuffer c, client sys) v),
         calls := (calls sys)(rid \<mapsto>
            c\<lparr>jsonBuffer := fst (read_chunk env (jsonBuffer c, client sys) v), phase := AwaitRead\<rparr>)\<rparr>"
  using assms by (simp add: catch_finally_Inr finish_def Let_def)

lemma exec_read_done:
  assumes "calls sys rid = Some c" and "phase c = AwaitRead"
  shows "exec env sys (ReadDone rid) =
     sys\<lparr>client := (client sys)\<lparr>isConnected := False\<rparr>,
         calls := (calls sys)(rid \<mapsto> c\<lparr>phase := Returned\<rparr>),
         settled := settled sys @ [(Some rid, Inr ())]\<rparr>"
  using assms by (simp add: catch_finally_Inr finish_def)

lemma exec_read_rejected:
  assumes "calls sys rid = Some c" and "phase c = AwaitRead"
  shows "exec env sys (ReadRejected rid e) =
     sys\<lparr>client := (log env (LogCaught e) (client sys))\<lparr>isConnected := False\<rparr>,
         calls := (calls sys)(rid \<mapsto> c\<lparr>phase := Returned\<rparr>),
         settled := settled sys @ [(Some rid, Inr ())]\<rparr>"
  using assms by (simp add: catch_finally_Inl finish_def)

lemma exec_connect_idle:
  assumes "\<not> onLine \<or> apis = []"
  shows "exec env sys (Connect onLine apis) =
     sys\<lparr>client := disconnect (client sys), settled := settled sys @ [(None, Inr ())]\<rparr>"
proof -
  have "(disconnect (client sys))\<lparr>isConnected := False\<rparr> = disconnect (client sys)"
    by (simp add: disconnect_def split: option.splits)
  with assms show ?thesis by (auto simp: Let_def)
qed

lemma exec_connect:
  assumes "onLine" and "apis \<noteq> []"
  shows "exec env sys (Connect onLine apis) =
     sys\<lparr>client := (log env (LogInfo ''Connecting'') (disconnect (client sys)))
                      \<lparr>requestId := requestId (client sys) + 1\<rparr>,
         calls := (calls sys)(requestId (client sys) + 1 \<mapsto> \<lparr>phase = AwaitFetch, jsonBuffer = []\<rparr>)\<rparr>"
  using assms by (simp add: Let_def log_frame disconnect_frame)

lemma exec_offline: "exec env sys Offline = sys\<lparr>client := disconnect (client sys)\<rparr>"
  by simp

lemmas exec_eqs = exec_no_call exec_fetch_other exec_read_other exec_fetch_rejected
  exec_fetch_stale exec_fetch_current exec_read_value exec_read_done exec_read_rejected
  exec_connect_idle exec_connect exec_offline

declare exec.simps [simp del]

text \<open>Every step falls under one of the equations above.\<close>

lemma exec_cases:
  obtains
    (idle) onLine apis where "ev = Connect onLine apis" "\<not> onLine \<or> apis = []"
      "exec env sys ev =
         sys\<lparr>client := disconnect (client sys), settled := settled sys @ [(None, Inr ())]\<rparr>"
  | (connect) onLine apis where "ev = Connect onLine apis" "onLine" "apis \<noteq> []"
      "exec env sys ev =
         sys\<lparr>client := (log env (LogInfo ''Connecting'') (disconnect (client sys)))
                          \<lparr>requestId := requestId (client sys) + 1\<rparr>,
             calls := (calls sys)(requestId (client sys) + 1 \<mapsto>
                        \<lparr>phase = AwaitFetch, jsonBuffer = []\<rparr>)\<rparr>"
  | (skip) "ev \<noteq> Offline" "\<forall>onLine apis. ev \<noteq> Connect onLine apis" "exec env sys ev = sys"
  | (rejected) rid c e where "ev = FetchSettled rid (Some e)" "calls sys rid = Some c"
      "phase c = AwaitFetch"
      "exec env sys ev =
         sys\<lparr>client := (log env (LogCaught e) (client sys))\<lparr>isConnected := False\<rparr>,
             calls := (calls sys)(rid \<mapsto> c\<lparr>jsonBuffer := [], phase := Returned\<rparr>),
             settled := settled sys @ [(Some rid, Inr ())]\<rparr>"
  | (stale) rid c where "ev = FetchSettled rid None" "calls sys rid = Some c"
      "phase c = AwaitFetch" "requestId (client sys) \<noteq> rid"
      "exec env sys ev =
         sys\<lparr>client := (client sys)\<lparr>aborted := aborted (client sys) @ [rid],
                                       isConnected := False\<rparr>,
             calls := (calls sys)(rid \<mapsto> c\<lparr>jsonBuffer := [], phase := Returned\<rparr>),
             settled := settled sys @ [(Some rid, Inr ())]\<rparr>"
  | (current) rid c where "ev = FetchSettled rid None" "calls sys rid = Some c"
      "phase c = AwaitFetch" "requestId (client sys) = rid"
      "exec env sys ev =
         sys\<lparr>client := (client sys)\<lparr>isConnected := True, reader := Some rid\<rparr>,
             calls := (calls sys)(rid \<mapsto> c\<lparr>jsonBuffer := [], phase := AwaitRead\<rparr>)\<rparr>"
  | (chunk) rid c v where "ev = ReadValue rid v" "calls sys rid = Some c" "phase c = AwaitRead"
      "exec env sys ev =
         sys\<lparr>client := snd (read_chunk env (jsonBuffer c, client sys) v),
             calls := (calls sys)(rid \<mapsto>
                c\<lparr>jsonBuffer := fst (read_chunk env (jsonBuffer c, client sys) v),
                  phase := AwaitRead\<rparr>)\<rparr>"
  | (finished) rid c where "ev = ReadDone rid" "calls sys rid = Some c" "phase c = AwaitRead"
      "exec env sys ev =
         sys\<lparr>client := (client sys)\<lparr>isConnected := False\<rparr>,
             calls := (calls sys)(rid \<mapsto> c\<lparr>phase := Returned\<rparr>),
             settled := settled sys @ [(Some rid, Inr ())]\<rparr>"
  | (failed) rid c e where "ev = ReadRejected rid e" "calls sys rid = Some c"
      "phase c = AwaitRead"
      "exec env sys ev =
         sys\<lparr>client := (log env (LogCaught e) (client sys))\<lparr>isConnected := False\<rparr>,
             calls := (calls sys)(rid \<mapsto> c\<lparr>phase := Returned\<rparr>),
             settled := settled sys @ [(Some rid, Inr ())]\<rparr>"
  | (offline) "ev = Offline" "exec env sys ev = sys\<lparr>client := disconnect (client sys)\<rparr>"
proof (cases ev)
  case (Connect onLine apis)
  then show ?thesis
    using idle[of onLine apis] connect[of onLine apis]
    by (cases "\<not> onLine \<or> apis = []") (auto simp: exec_eqs)
next
  case (FetchSettled rid rej)
  show ?thesis
  proof (cases "calls sys rid")
    case None
    then show ?thesis using FetchSettled skip by (simp add: exec_eqs)
  next
    case (Some c)
    show ?thesis
    proof (cases "phase c = AwaitFetch")
      case False
      with Some FetchSettled skip show ?thesis by (simp add: exec_eqs)
    next
      case True
      show ?thesis
      proof (cases rej)
        case e: (Some e)
        with Some True FetchSettled rejected[of rid e c] show ?thesis
          by (simp add: exec_eqs)
      next
        case None
        with Some True FetchSettled stale[of rid c] current[of rid c] show ?thesis
          by (cases "requestId (client sys) = rid") (simp_all add: exec_eqs)
      qed
    qed
  qed
next
  case (ReadValue rid v)
  show ?thesis
  proof (cases "calls sys rid")
    case None
    then show ?thesis using ReadValue skip by (simp add: exec_eqs)
  next
    case (Some c)
    then show ?thesis
      using ReadValue skip chunk[of rid v c]
      by (cases "phase c = AwaitRead") (simp_all add: exec_eqs)
  qed
next
  case (ReadDone rid)
  show ?thesis
  proof (cases "calls sys rid")
    case None
    then show ?thesis using ReadDone skip by (simp add: exec_eqs)
  next
    case (Some c)
    then show ?thesis
      using ReadDone skip finished[of rid c]
      by (cases "phase c = AwaitRead") (simp_all add: exec_eqs)
  qed
next
  case (ReadRejected rid e)
  show ?thesis
  proof (cases "calls sys rid")
    case None
    then show ?thesis using ReadRejected skip by (simp add: exec_eqs)
  next
    case (Some c)
    then show ?thesis
      using ReadRejected skip failed[of rid e c]
      by (cases "phase c = AwaitRead") (simp_all add: exec_eqs)
  qed
next
  case Offline
  then show ?thesis using offline by (simp add: exec_eqs)
qed

lemma exec_requestId_mono: "requestId (client sys) \<le> requestId (client (exec env sys ev))"
proof (cases rule: exec_cases[where ev = ev and env = env and sys = sys])
  case (chunk rid c v)
  then show ?thesis
    using read_chunk_frame[of env "jsonBuffer c" "client sys" v] by simp
qed (simp_all add: log_frame disconnect_frame)

lemma ids_issued_exec:
  assumes "ids_issued sys"
  shows "ids_issued (exec env sys ev)"
proof (cases rule: exec_cases[where ev = ev and env = env and sys = sys])
  case (chunk rid c v)
  then show ?thesis
    using assms read_chunk_frame[of env "jsonBuffer c" "client sys" v]
    by (auto simp: ids_issued_def)
next
  case (connect onLine apis)
  then show ?thesis
    using assms by (force simp: ids_issued_def log_frame disconnect_frame)
qed (use assms in \<open>auto simp: ids_issued_def log_frame disconnect_frame\<close>)

lemma ids_issued_run:
  assumes "ids_issued sys"
  shows "ids_issued (run env sys evs)"
  using assms unfolding run_def
  by (induction evs arbitrary: sys) (simp_all add: ids_issued_exec)

lemma ids_issued_new: "ids_issued new_system"
  by (simp add: ids_issued_def new_system_def)

lemma superseded_exec:
  assumes "superseded sys rid"
  shows "superseded (exec env sys ev) rid"
proof (cases rule: exec_cases[where ev = ev and env = env and sys = sys])
  case (chunk r c v)
  then show ?thesis
    using assms read_chunk_frame[of env "jsonBuffer c" "client sys" v]
    by (auto simp: superseded_def)
qed (use assms in \<open>auto simp: superseded_def log_frame disconnect_frame\<close>)

lemma superseded_run:
  assumes "superseded sys rid"
  shows "superseded (run env sys evs) rid"
  using assms unfolding run_def
  by (induction evs arbitrary: sys) (simp_all add: superseded_exec)

lemma superseded_silent:
  assumes "superseded sys rid" and "event_call ev = Some rid"
  shows "emitted (client (exec env sys ev)) = emitted (client sys)"
proof (cases rule: exec_cases[where ev = ev and env = env and sys = sys])
  case (chunk r c v)
  with assms show ?thesis by (auto simp: superseded_def)
qed (use assms in \<open>auto simp: superseded_def log_frame disconnect_frame\<close>)



lemma settle_clears_isConnected:
  assumes "settled (exec env sys ev) \<noteq> settled sys"
  shows "\<not> isConnected (client (exec env sys ev))"
  by (cases rule: exec_cases[where ev = ev and env = env and sys = sys]) (use assms in \<open>auto simp: disconnect_frame\<close>)

text \<open>
  Claim C1. Take any state the client can reach and a call of \<^verbatim>\<open>connect\<close> in it that still
  waits for its fetch while the request id has moved on (a later call has incremented
  it). Then, whatever happens later, no step of that call changes the list of
  dispatched messages, the call never gets to read its body, and when its fetch
  resolves it aborts the request and returns.
\<close>

theorem superseded_connect_never_dispatches:
  assumes "sys = run env new_system evs"
    and "calls sys rid = Some c" and "phase c = AwaitFetch"
    and "requestId (client sys) \<noteq> rid"
  shows "(event_call ev = Some rid \<longrightarrow>
            emitted (client (exec env (run env sys later) ev)) = emitted (client (run env sys later)))
       \<and> (\<exists>c'. calls (run env sys later) rid = Some c' \<and> phase c' \<noteq> AwaitRead
             \<and> (phase c' = AwaitFetch \<longrightarrow>
                   rid \<in> set (aborted (client (exec env (run env sys later) (FetchSettled rid None))))
                 \<and> map_option phase (calls (exec env (run env sys later) (FetchSettled rid None)) rid)
                     = Some Returned))"
proof -
  have "ids_issued sys"
    unfolding assms(1) by (rule ids_issued_run) (rule ids_issued_new)
  with assms(2) have "rid \<le> requestId (client sys)"
    by (simp add: ids_issued_def)
  with assms(2-4) have "superseded sys rid"
    by (auto simp: superseded_def)
  then have s: "superseded (run env sys later) rid"
    by (rule superseded_run)
  then obtain c' where c': "calls (run env sys later) rid = Some c'" "phase c' \<noteq> AwaitRead"
    and lt: "rid < requestId (client (run env sys later))"
    by (auto simp: superseded_def)
  have "rid \<in> set (aborted (client (exec env (run env sys later) (FetchSettled rid None))))
      \<and> map_option phase (calls (exec env (run env sys later) (FetchSettled rid None)) rid)
           = Some Returned"
    if "phase c' = AwaitFetch"
    using that c' lt by (simp add: exec_fetch_stale)
  with c' superseded_silent[OF s] show ?thesis
    by blast
qed

theorem superseded_connect_never_dispatches_witness:
  \<open>calls (run example_env new_system [Connect True [''/api/v1/pods''], Connect True [''/api/v1/pods'']]) 1
      = Some \<lparr>phase = AwaitFetch, jsonBuffer = []\<rparr>
   \<and> requestId (client (run example_env new_system
         [Connect True [''/api/v1/pods''], Connect True [''/api/v1/pods'']])) \<noteq> 1
   \<and> emitted (client (exec example_env
         (run example_env
            (run example_env new_system [Connect True [''/api/v1/pods''], Connect True [''/api/v1/pods'']])
            [FetchSettled 2 None, ReadValue 2 (''{"type":"ERROR"}'' @ [NL])])
         (FetchSettled 1 None)))
     = emitted (client
         (run example_env
            (run example_env new_system [Connect True [''/api/v1/pods''], Connect True [''/api/v1/pods'']])
            [FetchSettled 2 None, ReadValue 2 (''{"type":"ERROR"}'' @ [NL])]))
   \<and> 1 \<in> set (aborted (client (exec example_env
         (run example_env
            (run example_env new_system [Connect True [''/api/v1/pods''], Connect True [''/api/v1/pods'']])
            [FetchSettled 2 None, ReadValue 2 (''{"type":"ERROR"}'' @ [NL])])
         (FetchSettled 1 None))))\<close>
proof -
  define sys :: "(string, string) system"
    where "sys = run example_env new_system
                   [Connect True [''/api/v1/pods''], Connect True [''/api/v1/pods'']]"
  define later where \<open>later = [FetchSettled 2 None, ReadValue 2 (''{"type":"ERROR"}'' @ [NL])]\<close>
  have c: "calls sys 1 = Some \<lparr>phase = AwaitFetch, jsonBuffer = []\<rparr>"
    unfolding sys_def by code_simp
  have p: "phase \<lparr>phase = AwaitFetch, jsonBuffer = []\<rparr> = AwaitFetch"
    by simp
  have n: "requestId (client sys) \<noteq> 1"
    unfolding sys_def by code_simp
  have f: "map_option phase (calls (run example_env sys later) 1) = Some AwaitFetch"
    unfolding sys_def later_def by code_simp
  from superseded_connect_never_dispatches
         [OF sys_def c p n, of "FetchSettled 1 None" later] f
  have "emitted (client (exec example_env (run example_env sys later) (FetchSettled 1 None)))
          = emitted (client (run example_env sys later))
      \<and> 1 \<in> set (aborted (client (exec example_env (run example_env sys later)
                                     (FetchSettled 1 None))))"
    by auto
  with c n show ?thesis
    unfolding sys_def later_def by simp
qed



text \<open>
  Claim C9. Every step in which a call of \<^verbatim>\<open>connect\<close> settles leaves \<^verbatim>\<open>isConnected\<close> false.
  In particular, when a superseded call settles at its fetch while a newer call is
  connected and reading, \<^verbatim>\<open>isConnected\<close> becomes false although the reader of the newer
  call stays in place, is not cancelled, and its call goes on reading. Two calls of
  \<^verbatim>\<open>connect\<close> in a row, the fetch of the second resolving first, lead to such a state.
\<close>

theorem settled_connect_clears_isConnected:
  "(settled (exec env sys ev) \<noteq> settled sys \<longrightarrow> \<not> isConnected (client (exec env sys ev)))
   \<and> (calls sys rid = Some c \<and> phase c = AwaitFetch \<and> requestId (client sys) \<noteq> rid
        \<and> isConnected (client sys) \<and> reader (client sys) = Some live \<and> live \<noteq> rid
        \<and> calls sys live = Some c2 \<and> phase c2 = AwaitRead
      \<longrightarrow> \<not> isConnected (client (exec env sys (FetchSettled rid r)))
          \<and> reader (client (exec env sys (FetchSettled rid r))) = Some live
          \<and> cancelled (client (exec env sys (FetchSettled rid r))) = cancelled (client sys)
          \<and> calls (exec env sys (FetchSettled rid r)) live = Some c2)"
proof (intro conjI impI)
  assume "settled (exec env sys ev) \<noteq> settled sys"
  then show "\<not> isConnected (client (exec env sys ev))"
    by (rule settle_clears_isConnected)
next
  assume h: "calls sys rid = Some c \<and> phase c = AwaitFetch \<and> requestId (client sys) \<noteq> rid
        \<and> isConnected (client sys) \<and> reader (client sys) = Some live \<and> live \<noteq> rid
        \<and> calls sys live = Some c2 \<and> phase c2 = AwaitRead"
  then have e: "exec env sys (FetchSettled rid r) =
      (case r of
         None \<Rightarrow> sys\<lparr>client := (client sys)\<lparr>aborted := aborted (client sys) @ [rid],
                                       isConnected := False\<rparr>,
             calls := (calls sys)(rid \<mapsto> c\<lparr>jsonBuffer := [], phase := Returned\<rparr>),
             settled := settled sys @ [(Some rid, Inr ())]\<rparr>
       | Some e \<Rightarrow> sys\<lparr>client := (log env (LogCaught e) (client sys))\<lparr>isConnected := False\<rparr>,
             calls := (calls sys)(rid \<mapsto> c\<lparr>jsonBuffer := [], phase := Returned\<rparr>),
             settled := settled sys @ [(Some rid, Inr ())]\<rparr>)"
    by (cases r) (simp_all add: exec_fetch_stale exec_fetch_rejected)
  from h show "\<not> isConnected (client (exec env sys (FetchSettled rid r)))"
    unfolding e by (cases r) simp_all
  from h show "reader (client (exec env sys (FetchSettled rid r))) = Some live"
    unfolding e by (cases r) (simp_all add: log_frame)
  from h show "cancelled (client (exec env sys (FetchSettled rid r))) = cancelled (client sys)"
    unfolding e by (cases r) (simp_all add: log_frame)
  from h show "calls (exec env sys (FetchSettled rid r)) live = Some c2"
    unfolding e by (cases r) simp_all
qed

theorem settled_connect_clears_isConnected_witness:
  "isConnected (client (run example_env new_system
       [Connect True [''/api/v1/pods''], Connect True [''/api/v1/pods''], FetchSettled 2 None]))
   \<and> reader (client (run example_env new_system
       [Connect True [''/api/v1/pods''], Connect True [''/api/v1/pods''], FetchSettled 2 None])) = Some 2
   \<and> settled (exec example_env (run example_env new_system
       [Connect True [''/api/v1/pods''], Connect True [''/api/v1/pods''], FetchSettled 2 None])
         (FetchSettled 1 None))
      \<noteq> settled (run example_env new_system
       [Connect True [''/api/v1/pods''], Connect True [''/api/v1/pods''], FetchSettled 2 None])
   \<and> \<not> isConnected (client (exec example_env (run example_env new_system
       [Connect True [''/api/v1/pods''], Connect True [''/api/v1/pods''], FetchSettled 2 None])
         (FetchSettled 1 None)))
   \<and> reader (client (exec example_env (run example_env new_system
       [Connect True [''/api/v1/pods''], Connect True [''/api/v1/pods''], FetchSettled 2 None])
         (FetchSettled 1 None))) = Some 2
   \<and> calls (exec example_env (run example_env new_system
       [Connect True [''/api/v1/pods''], Connect True [''/api/v1/pods''], FetchSettled 2 None])
         (FetchSettled 1 None)) 2 = Some \<lparr>phase = AwaitRead, jsonBuffer = []\<rparr>"
proof -
  define sys :: "(string, string) system"
    where "sys = run example_env new_system
       [Connect True [''/api/v1/pods''], Connect True [''/api/v1/pods''], FetchSettled 2 None]"
  have h: "calls sys 1 = Some \<lparr>phase = AwaitFetch, jsonBuffer = []\<rparr>"
    "requestId (client sys) \<noteq> 1" "isConnected (client sys)" "reader (client sys) = Some 2"
    "calls sys 2 = Some \<lparr>phase = AwaitRead, jsonBuffer = []\<rparr>"
    "settled (exec example_env sys (FetchSettled 1 None)) \<noteq> settled sys"
    unfolding sys_def by code_simp+
  from settled_connect_clears_isConnected
         [where env = example_env and sys = sys and ev = "FetchSettled 1 None" and rid = 1
            and c = "\<lparr>phase = AwaitFetch, jsonBuffer = []\<rparr>" and live = 2
            and ?c2.0 = "\<lparr>phase = AwaitRead, jsonBuffer = []\<rparr>" and r = None] h
  have "isConnected (client sys) \<and> reader (client sys) = Some 2
      \<and> settled (exec example_env sys (FetchSettled 1 None)) \<noteq> settled sys
      \<and> \<not> isConnected (client (exec example_env sys (FetchSettled 1 None)))
      \<and> reader (client (exec example_env sys (FetchSettled 1 None))) = Some 2
      \<and> calls (exec example_env sys (FetchSettled 1 None)) 2
           = Some \<lparr>phase = AwaitRead, jsonBuffer = []\<rparr>"
    by simp
  then show ?thesis
    unfolding sys_def .
qed

end
